theory Spec2Isabelle
  imports Main "HOL-Library.Option_ord" "HOL-Library.Multiset"
begin

section \<open>The Note model of the notes application\<close>

text \<open>
  The repository's source is the Django model \<open>notes/models.py\<close> and its initial
  migration \<open>notes/migrations/0001_initial.py\<close>. Both are declarations: a list of
  fields, each built by a field class from keyword arguments. The embedding keeps the
  declarations as data, and gives the operations the class \<open>Note\<close> inherits from
  \<open>models.Model\<close> (\<open>Note.objects.create\<close>, \<open>save\<close>, \<open>Note.objects.get\<close>,
  \<open>QuerySet.update\<close>) the meaning Django gives them for these declarations.
\<close>

subsection \<open>Field declarations\<close>

text \<open>
  A keyword argument that was not passed: Django's \<open>NOT_PROVIDED\<close>. It is not the
  same as passing \<open>None\<close>, which is \<open>Provided None\<close> below.
\<close>

datatype 'a supplied = NOT_PROVIDED | Provided 'a

text \<open>
  The keyword arguments of a field that the two source files use. \<open>'a\<close> is the type
  of the field's non-null Python values; a value of the field is an \<open>'a option\<close>,
  \<open>None\<close> being Python's \<open>None\<close> (SQL \<open>NULL\<close>).
\<close>

record 'a Field =
  null_kw :: bool
  blank_kw :: bool
  default_kw :: "'a option supplied"
  auto_now_kw :: bool
  auto_created_kw :: bool
  primary_key_kw :: bool
  serialize_kw :: bool
  verbose_name_kw :: "string option"

text \<open>
  What \<open>Field.__init__\<close> takes for a keyword that is not written:
  \<open>null=False\<close>, \<open>blank=False\<close>, \<open>default=NOT_PROVIDED\<close>, \<open>auto_now=False\<close>,
  \<open>auto_created=False\<close>, \<open>primary_key=False\<close>, \<open>serialize=True\<close>, \<open>verbose_name=None\<close>.
\<close>

definition Field_defaults :: "'a Field" where
  "Field_defaults =
     \<lparr>null_kw = False, blank_kw = False, default_kw = NOT_PROVIDED, auto_now_kw = False,
      auto_created_kw = False, primary_key_kw = False, serialize_kw = True,
      verbose_name_kw = None\<rparr>"

type_synonym timestamp = int

text \<open>The four field classes of the source, each with its keyword arguments.\<close>

datatype model_field =
    BigAutoField "int Field"
  | TextField "string Field"
  | DateTimeField "timestamp Field"
  | BooleanField "bool Field"

text \<open>\<open>models.py\<close>, lines 5 to 12: the class attributes of \<open>Note\<close>.\<close>

definition title_field :: "string Field" where
  "title_field = Field_defaults\<lparr>null_kw := True, blank_kw := True\<rparr>"

definition content_field :: "string Field" where
  "content_field = Field_defaults\<lparr>null_kw := True, blank_kw := True\<rparr>"

definition last_updated_on_field :: "timestamp Field" where
  "last_updated_on_field = Field_defaults\<lparr>auto_now_kw := True\<rparr>"

definition is_active_field :: "bool Field" where
  "is_active_field = Field_defaults\<lparr>default_kw := Provided (Some True)\<rparr>"

definition Note_fields :: "(string \<times> model_field) list" where
  "Note_fields =
     [(''title'', TextField title_field),
      (''content'', TextField content_field),
      (''last_updated_on'', DateTimeField last_updated_on_field),
      (''is_active'', BooleanField is_active_field)]"

text \<open>
  \<open>0001_initial.py\<close>, lines 16 to 22: the \<open>fields\<close> of \<open>migrations.CreateModel\<close>,
  written out as the migration has them (keywords in the migration's order).
\<close>

definition Migration_fields :: "(string \<times> model_field) list" where
  "Migration_fields =
     [(''id'', BigAutoField (Field_defaults\<lparr>auto_created_kw := True, primary_key_kw := True,
                 serialize_kw := False, verbose_name_kw := Some ''ID''\<rparr>)),
      (''title'', TextField (Field_defaults\<lparr>blank_kw := True, null_kw := True\<rparr>)),
      (''content'', TextField (Field_defaults\<lparr>blank_kw := True, null_kw := True\<rparr>)),
      (''last_updated_on'', DateTimeField (Field_defaults\<lparr>auto_now_kw := True\<rparr>)),
      (''is_active'', BooleanField (Field_defaults\<lparr>default_kw := Provided (Some True)\<rparr>))]"

text \<open>
  Whether a column of the table accepts \<open>NULL\<close>, read off its declaration.
\<close>

fun nullable :: "model_field \<Rightarrow> bool" where
  "nullable (BigAutoField f) = null_kw f"
| "nullable (TextField f) = null_kw f"
| "nullable (DateTimeField f) = null_kw f"
| "nullable (BooleanField f) = null_kw f"

subsection \<open>Rows and string conversion\<close>

text \<open>
  A row of the table as it is read back into a \<open>Note\<close> instance. \<open>pk\<close> is the column
  \<open>id\<close> (Django's alias for the primary key; \<open>id\<close> is a HOL constant). The other four
  attributes can hold \<open>None\<close> on the Python side whatever the column allows.
\<close>

record Note =
  pk :: int
  title :: "string option"
  content :: "string option"
  last_updated_on :: "timestamp option"
  is_active :: "bool option"

datatype error = DoesNotExist | IntegrityError | TypeError

text \<open>\<open>models.py\<close>, lines 14 and 15: \<open>def __str__(self): return self.title\<close>.\<close>

definition Note_str :: "Note \<Rightarrow> string option" where
  "Note_str self = title self"

text \<open>
  Python's \<open>str(note)\<close>: it calls \<open>__str__\<close> and raises \<open>TypeError\<close> when the result is
  not a string, which is the case for \<open>None\<close>.
\<close>

definition str_builtin :: "Note \<Rightarrow> error + string" where
  "str_builtin self = (case Note_str self of None \<Rightarrow> Inl TypeError | Some s \<Rightarrow> Inr s)"

subsection \<open>The store\<close>

text \<open>
  Modelled from the spec: the sequence of the primary key, \<open>next_id\<close> (section 3:
  ``primary key, auto-generated''; section 6: ``auto-increment primary key''). The
  database that hands out the values of the \<open>BigAutoField\<close> is not among the source
  files. The table holds its rows in insertion order, and the sequence of an empty
  table starts at 1. The ids are unbounded integers here: a 64-bit sequence that is
  used up makes the insert fail, it does not wrap around.
\<close>

record store =
  rows :: "Note list"
  next_id :: int

definition empty_store :: store where
  "empty_store = \<lparr>rows = [], next_id = 1\<rparr>"

text \<open>
  The keyword arguments of a write: \<open>Note.objects.create(**kw)\<close>, or the attributes a
  caller assigns before \<open>save()\<close>. The primary key is not among them: it is left to the
  database (\<open>auto_created=True\<close>).
\<close>

record write_args =
  title_arg :: "string option supplied"
  content_arg :: "string option supplied"
  last_updated_on_arg :: "timestamp option supplied"
  is_active_arg :: "bool option supplied"

definition no_args :: write_args where
  "no_args = \<lparr>title_arg = NOT_PROVIDED, content_arg = NOT_PROVIDED,
              last_updated_on_arg = NOT_PROVIDED, is_active_arg = NOT_PROVIDED\<rparr>"

text \<open>
  \<open>Field.get_default\<close>: the declared default if there is one; otherwise \<open>None\<close> for a
  nullable field, and for a field that is not nullable the empty value of its class
  (\<open>empty_value\<close>: the empty string for a text field, \<open>None\<close> for the classes that do not
  allow empty strings).
\<close>

definition get_default :: "'a option \<Rightarrow> 'a Field \<Rightarrow> 'a option" where
  "get_default empty_value f =
     (case default_kw f of
        Provided v \<Rightarrow> v
      | NOT_PROVIDED \<Rightarrow> (if null_kw f then None else empty_value))"

text \<open>\<open>Model.__init__\<close>: the keyword's value if it was passed, else the field's default.\<close>

definition init_value :: "'a option \<Rightarrow> 'a Field \<Rightarrow> 'a option supplied \<Rightarrow> 'a option" where
  "init_value empty_value f arg =
     (case arg of Provided v \<Rightarrow> v | NOT_PROVIDED \<Rightarrow> get_default empty_value f)"

text \<open>Assigning an attribute of a fetched instance, or leaving it as it was read.\<close>

definition assign :: "'a supplied \<Rightarrow> 'a \<Rightarrow> 'a" where
  "assign arg old = (case arg of Provided v \<Rightarrow> v | NOT_PROVIDED \<Rightarrow> old)"

text \<open>
  \<open>DateTimeField.pre_save\<close>, run by every \<open>save()\<close>: with \<open>auto_now\<close> the attribute is
  overwritten with the clock's reading \<open>now\<close> (\<open>timezone.now()\<close>); without it the
  attribute's value is kept.
\<close>

definition pre_save :: "timestamp Field \<Rightarrow> timestamp \<Rightarrow> timestamp option \<Rightarrow> timestamp option" where
  "pre_save f now v = (if auto_now_kw f then Some now else v)"

text \<open>The column's \<open>NOT NULL\<close> constraint: a field without \<open>null=True\<close> refuses \<open>NULL\<close>.\<close>

definition db_accepts :: "'a Field \<Rightarrow> 'a option \<Rightarrow> bool" where
  "db_accepts f v = (null_kw f \<or> v \<noteq> None)"

definition not_null_ok :: "Note \<Rightarrow> bool" where
  "not_null_ok n =
     (db_accepts title_field (title n) \<and> db_accepts content_field (content n) \<and>
      db_accepts last_updated_on_field (last_updated_on n) \<and>
      db_accepts is_active_field (is_active n))"

text \<open>
  \<open>Note.objects.create(**kw)\<close> at clock reading \<open>now\<close>: build the instance, run
  \<open>pre_save\<close>, insert it under the next value of the sequence. A \<open>NULL\<close> in a column
  that refuses it raises \<open>IntegrityError\<close> and leaves the table as it was.
\<close>

definition create :: "store \<Rightarrow> timestamp \<Rightarrow> write_args \<Rightarrow> error + (store \<times> Note)" where
  "create st now kw =
     (let n = \<lparr>pk = next_id st,
               title = init_value (Some '''') title_field (title_arg kw),
               content = init_value (Some '''') content_field (content_arg kw),
               last_updated_on = pre_save last_updated_on_field now
                 (init_value None last_updated_on_field (last_updated_on_arg kw)),
               is_active = init_value None is_active_field (is_active_arg kw)\<rparr>
      in if not_null_ok n
         then Inr (st\<lparr>rows := rows st @ [n], next_id := next_id st + 1\<rparr>, n)
         else Inl IntegrityError)"

text \<open>\<open>Note.objects.get(pk=i)\<close>: the row, or \<open>DoesNotExist\<close>.\<close>

definition read :: "store \<Rightarrow> int \<Rightarrow> error + Note" where
  "read st i =
     (case find (\<lambda>n. pk n = i) (rows st) of None \<Rightarrow> Inl DoesNotExist | Some n \<Rightarrow> Inr n)"

text \<open>
  An update at clock reading \<open>now\<close>: fetch the instance, assign the attributes that
  are passed, \<open>save()\<close>. The \<open>UPDATE\<close> writes every column but the primary key.
\<close>

definition update :: "store \<Rightarrow> timestamp \<Rightarrow> int \<Rightarrow> write_args \<Rightarrow> error + store" where
  "update st now i kw =
     (case find (\<lambda>n. pk n = i) (rows st) of
        None \<Rightarrow> Inl DoesNotExist
      | Some n \<Rightarrow>
          (let n' = n\<lparr>title := assign (title_arg kw) (title n),
                      content := assign (content_arg kw) (content n),
                      last_updated_on := pre_save last_updated_on_field now
                        (assign (last_updated_on_arg kw) (last_updated_on n)),
                      is_active := assign (is_active_arg kw) (is_active n)\<rparr>
           in if not_null_ok n'
              then Inr (st\<lparr>rows := map (\<lambda>m. if pk m = i then n' else m) (rows st)\<rparr>)
              else Inl IntegrityError))"

text \<open>
  \<open>models.py\<close>, line 11: ``To delete a note, we wil simply set is_active to False''.
\<close>

definition logical_delete :: "store \<Rightarrow> timestamp \<Rightarrow> int \<Rightarrow> error + store" where
  "logical_delete st now i = update st now i (no_args\<lparr>is_active_arg := Provided (Some False)\<rparr>)"

text \<open>
  \<open>Note.objects.filter(pk=i).update(**kw)\<close> at clock reading \<open>now\<close>, the write the
  manager of the class offers beside \<open>save()\<close>: one \<open>UPDATE\<close> statement that writes
  the columns that are passed, as they are passed, into the rows it matches. No instance
  is fetched and \<open>pre_save\<close> is not run, so \<open>auto_now\<close> has no part in it and the clock
  is not read. It matches no row without raising.
\<close>

definition queryset_update :: "store \<Rightarrow> timestamp \<Rightarrow> int \<Rightarrow> write_args \<Rightarrow> error + store" where
  "queryset_update st now i kw =
     (let w = (\<lambda>n. n\<lparr>title := assign (title_arg kw) (title n),
                        content := assign (content_arg kw) (content n),
                        last_updated_on := assign (last_updated_on_arg kw) (last_updated_on n),
                        is_active := assign (is_active_arg kw) (is_active n)\<rparr>)
      in if list_all (\<lambda>n. not_null_ok (w n)) (filter (\<lambda>n. pk n = i) (rows st))
         then Inr (st\<lparr>rows := map (\<lambda>m. if pk m = i then w m else m) (rows st)\<rparr>)
         else Inl IntegrityError)"

subsection \<open>Histories of writes, and the listing\<close>

text \<open>
  Modelled from the spec: the write operations a client of the store has (section 4.1:
  create, update, logical delete). The views that call them are not among the source
  files; the spec names no operation that removes a row.
\<close>

datatype op = Create write_args | Update int write_args | LogicalDelete int

text \<open>
  One operation at clock reading \<open>now\<close>. An operation that raises leaves the table
  as it was.
\<close>

fun step :: "store \<Rightarrow> timestamp \<Rightarrow> op \<Rightarrow> store" where
  "step st now (Create kw) = (case create st now kw of Inl e \<Rightarrow> st | Inr (st', n) \<Rightarrow> st')"
| "step st now (Update i kw) = (case update st now i kw of Inl e \<Rightarrow> st | Inr st' \<Rightarrow> st')"
| "step st now (LogicalDelete i) = (case logical_delete st now i of Inl e \<Rightarrow> st | Inr st' \<Rightarrow> st')"

text \<open>A history: the operations in the order they are applied, each with its clock reading.\<close>

fun run :: "store \<Rightarrow> (timestamp \<times> op) list \<Rightarrow> store" where
  "run st [] = st"
| "run st ((now, x) # h) = run (step st now x) h"

text \<open>An operation that writes \<open>is_active = True\<close> into row \<open>i\<close>.\<close>

fun reactivates :: "int \<Rightarrow> op \<Rightarrow> bool" where
  "reactivates i (Update j kw) = (j = i \<and> is_active_arg kw = Provided (Some True))"
| "reactivates i (Create kw) = False"
| "reactivates i (LogicalDelete j) = False"

text \<open>
  Modelled from the spec: the listing of the store, ``listable sorted by
  \<open>last_updated_on\<close>'' (section 4.1). The view that lists the notes is not among the
  source files: \<open>models.py\<close> declares no \<open>Meta.ordering\<close>, and its line 8 only says
  ``Notes will be sorted using this field''. The spec does not say in which direction;
  \<open>reverse\<close> chooses it, as the \<open>-\<close> of \<open>order_by('-last_updated_on')\<close> would.
\<close>

definition list_notes :: "bool \<Rightarrow> store \<Rightarrow> Note list" where
  "list_notes reverse st =
     (if reverse then rev (sort_key last_updated_on (rows st))
      else sort_key last_updated_on (rows st))"

text \<open>
  The state of a table whose primary keys the sequence has handed out: they increase
  in insertion order and the sequence is ahead of all of them.
\<close>

definition store_ok :: "store \<Rightarrow> bool" where
  "store_ok st =
     (sorted_wrt (<) (map pk (rows st)) \<and> (\<forall>n \<in> set (rows st). pk n < next_id st))"

section \<open>Properties\<close>

text \<open>The declarations and their interpretation, unfolded together in the proofs.\<close>

lemma db_accepts_simps [simp]:
  "db_accepts f None = null_kw f"
  "db_accepts f (Some x) = True"
  by (simp_all add: db_accepts_def)

lemmas field_defs =
  title_field_def content_field_def last_updated_on_field_def is_active_field_def
  Field_defaults_def get_default_def init_value_def assign_def pre_save_def
  not_null_ok_def

subsection \<open>Facts about the operations\<close>

text \<open>
  With the declarations of \<open>models.py\<close> unfolded: which values a write stores, and
  what it refuses.
\<close>

lemma not_null_ok_iff: "not_null_ok n \<longleftrightarrow> last_updated_on n \<noteq> None \<and> is_active n \<noteq> None"
  by (simp add: not_null_ok_def db_accepts_def title_field_def content_field_def
      last_updated_on_field_def is_active_field_def Field_defaults_def)

lemma init_title: "init_value (Some '''') title_field a = assign a None"
  by (simp add: init_value_def get_default_def assign_def title_field_def Field_defaults_def
      split: supplied.splits)

lemma init_content: "init_value (Some '''') content_field a = assign a None"
  by (simp add: init_value_def get_default_def assign_def content_field_def Field_defaults_def
      split: supplied.splits)

lemma init_is_active: "init_value None is_active_field a = assign a (Some True)"
  by (simp add: init_value_def get_default_def assign_def is_active_field_def Field_defaults_def
      split: supplied.splits)

lemma pre_save_now: "pre_save last_updated_on_field now v = Some now"
  by (simp add: pre_save_def last_updated_on_field_def Field_defaults_def)

lemma create_eq:
  "create st now kw =
     (case assign (is_active_arg kw) (Some True) of
        None \<Rightarrow> Inl IntegrityError
      | Some b \<Rightarrow>
          Inr (st\<lparr>rows := rows st @ [\<lparr>pk = next_id st, title = assign (title_arg kw) None,
                  content = assign (content_arg kw) None, last_updated_on = Some now,
                  is_active = Some b\<rparr>], next_id := next_id st + 1\<rparr>,
               \<lparr>pk = next_id st, title = assign (title_arg kw) None,
                  content = assign (content_arg kw) None, last_updated_on = Some now,
                  is_active = Some b\<rparr>))"
  by (simp add: create_def Let_def not_null_ok_iff init_title init_content init_is_active
      pre_save_now split: option.splits)

lemma update_eq:
  "update st now i kw =
     (case find (\<lambda>n. pk n = i) (rows st) of
        None \<Rightarrow> Inl DoesNotExist
      | Some n \<Rightarrow>
          (case assign (is_active_arg kw) (is_active n) of
             None \<Rightarrow> Inl IntegrityError
           | Some b \<Rightarrow>
               Inr (st\<lparr>rows := map (\<lambda>m. if pk m = i
                      then n\<lparr>title := assign (title_arg kw) (title n),
                             content := assign (content_arg kw) (content n),
                             last_updated_on := Some now, is_active := Some b\<rparr>
                      else m) (rows st)\<rparr>)))"
  by (simp add: update_def Let_def not_null_ok_iff pre_save_now split: option.splits)

lemma find_pk_append:
  "find P (xs @ ys) = (case find P xs of None \<Rightarrow> find P ys | Some x \<Rightarrow> Some x)"
  by (induction xs) auto

lemma find_pk_map:
  "pk n' = j \<Longrightarrow>
   find (\<lambda>m. pk m = i) (map (\<lambda>m. if pk m = j then n' else m) xs) =
     (if i = j then map_option (\<lambda>_. n') (find (\<lambda>m. pk m = j) xs)
      else find (\<lambda>m. pk m = i) xs)"
  by (induction xs) auto

lemma map_pk_map:
  "pk n' = j \<Longrightarrow> map pk (map (\<lambda>m. if pk m = j then n' else m) xs) = map pk xs"
  by (induction xs) auto

lemma find_pk_Some: "find (\<lambda>m. pk m = i) xs = Some n \<Longrightarrow> pk n = i"
  by (induction xs) (auto split: if_splits)

lemma find_pk_None: "find (\<lambda>m. pk m = i) xs = None \<longleftrightarrow> i \<notin> pk ` set xs"
  by (induction xs) auto

lemma read_Inr: "read st i = Inr n \<longleftrightarrow> find (\<lambda>m. pk m = i) (rows st) = Some n"
  by (simp add: read_def split: option.splits)

lemma create_Inr:
  assumes "create st now kw = Inr (st', n)"
  shows "pk n = next_id st" and "last_updated_on n = Some now"
    and "title n = assign (title_arg kw) None"
    and "content n = assign (content_arg kw) None"
    and "is_active n = assign (is_active_arg kw) (Some True)"
    and "st' = st\<lparr>rows := rows st @ [n], next_id := next_id st + 1\<rparr>"
  using assms by (auto simp: create_eq split: option.splits)

lemma update_Inr:
  assumes "update st now i kw = Inr st'"
  obtains n n' where "find (\<lambda>m. pk m = i) (rows st) = Some n"
    and "n' = n\<lparr>title := assign (title_arg kw) (title n),
                 content := assign (content_arg kw) (content n),
                 last_updated_on := Some now,
                 is_active := assign (is_active_arg kw) (is_active n)\<rparr>"
    and "is_active n' \<noteq> None"
    and "st' = st\<lparr>rows := map (\<lambda>m. if pk m = i then n' else m) (rows st)\<rparr>"
  using assms by (auto simp: update_eq split: option.splits)

lemma update_read_same:
  assumes "update st now i kw = Inr st'"
  shows "\<exists>n. read st i = Inr n \<and>
     read st' i = Inr (n\<lparr>title := assign (title_arg kw) (title n),
          content := assign (content_arg kw) (content n),
          last_updated_on := Some now,
          is_active := assign (is_active_arg kw) (is_active n)\<rparr>)"
proof -
  from assms obtain n n' where
    f: "find (\<lambda>m. pk m = i) (rows st) = Some n" and
    n': "n' = n\<lparr>title := assign (title_arg kw) (title n),
                 content := assign (content_arg kw) (content n),
                 last_updated_on := Some now,
                 is_active := assign (is_active_arg kw) (is_active n)\<rparr>" and
    s: "st' = st\<lparr>rows := map (\<lambda>m. if pk m = i then n' else m) (rows st)\<rparr>"
    by (rule update_Inr)
  from f have "pk n = i" by (rule find_pk_Some)
  then have "pk n' = i" using n' by simp
  then have "read st' i = Inr n'"
    using f s by (simp add: read_def find_pk_map)
  with f n' show ?thesis by (simp add: read_Inr)
qed

lemma update_read_other:
  assumes "update st now j kw = Inr st'" and "j \<noteq> i"
  shows "read st' i = read st i"
proof -
  from assms(1) obtain n n' where
    f: "find (\<lambda>m. pk m = j) (rows st) = Some n" and
    n': "n' = n\<lparr>title := assign (title_arg kw) (title n),
                 content := assign (content_arg kw) (content n),
                 last_updated_on := Some now,
                 is_active := assign (is_active_arg kw) (is_active n)\<rparr>" and
    s: "st' = st\<lparr>rows := map (\<lambda>m. if pk m = j then n' else m) (rows st)\<rparr>"
    by (rule update_Inr)
  from f have "pk n = j" by (rule find_pk_Some)
  then have "pk n' = j" using n' by simp
  then show ?thesis
    using s assms(2) by (simp add: read_def find_pk_map)
qed

lemma update_map_pk:
  assumes "update st now i kw = Inr st'"
  shows "map pk (rows st') = map pk (rows st)" and "next_id st' = next_id st"
proof -
  from assms obtain n n' where
    f: "find (\<lambda>m. pk m = i) (rows st) = Some n" and
    n': "n' = n\<lparr>title := assign (title_arg kw) (title n),
                 content := assign (content_arg kw) (content n),
                 last_updated_on := Some now,
                 is_active := assign (is_active_arg kw) (is_active n)\<rparr>" and
    s: "st' = st\<lparr>rows := map (\<lambda>m. if pk m = i then n' else m) (rows st)\<rparr>"
    by (rule update_Inr)
  from f have "pk n = i" by (rule find_pk_Some)
  then have "pk n' = i" using n' by simp
  then show "map pk (rows st') = map pk (rows st)" using s by (simp add: map_pk_map)
  from s show "next_id st' = next_id st" by simp
qed

lemma create_read_old:
  assumes "create st now kw = Inr (st', n)" and "read st i = Inr m"
  shows "read st' i = Inr m"
  using assms(2) create_Inr(6) [OF assms(1)]
  by (simp add: read_def find_pk_append split: option.splits)

lemma create_read_new:
  assumes "create st now kw = Inr (st', n)" and "store_ok st"
  shows "read st' (pk n) = Inr n"
proof -
  have "next_id st \<notin> pk ` set (rows st)"
    using assms(2) by (auto simp: store_ok_def)
  then have "find (\<lambda>m. pk m = next_id st) (rows st) = None"
    by (simp add: find_pk_None)
  then show ?thesis
    using create_Inr(1,6) [OF assms(1)]
    by (simp add: read_def find_pk_append)
qed

text \<open>The three outcomes of an operation, and what a history preserves.\<close>

lemma step_cases:
  obtains (unchanged) "step st now x = st"
  | (created) kw st' n where "x = Create kw" and "create st now kw = Inr (st', n)"
      and "step st now x = st'"
  | (updated) i kw st' where
      "x = Update i kw \<or>
       (x = LogicalDelete i \<and> kw = no_args\<lparr>is_active_arg := Provided (Some False)\<rparr>)"
      and "update st now i kw = Inr st'" and "step st now x = st'"
proof (cases x)
  case (Create kw)
  then show ?thesis
    using unchanged created by (cases "create st now kw") auto
next
  case (Update i kw)
  then show ?thesis
    using unchanged updated by (cases "update st now i kw") auto
next
  case (LogicalDelete i)
  then show ?thesis
    using unchanged updated [of i "no_args\<lparr>is_active_arg := Provided (Some False)\<rparr>"]
    by (cases "logical_delete st now i") (auto simp: logical_delete_def)
qed

lemma step_store_ok:
  assumes ok: "store_ok st"
  shows "store_ok (step st now x)"
proof (cases rule: step_cases [of st now x])
  case unchanged
  with ok show ?thesis by simp
next
  case (created kw st' n)
  from create_Inr(1,6) [OF created(2)] ok created(3) show ?thesis
    by (auto simp: store_ok_def sorted_wrt_append)
next
  case (updated i kw st')
  have "\<forall>k \<in> set (map pk (rows st)). k < next_id st"
    using ok by (simp add: store_ok_def)
  then have "\<forall>k \<in> set (map pk (rows st')). k < next_id st"
    by (simp only: update_map_pk(1) [OF updated(2)])
  then have "\<forall>n \<in> set (rows st'). pk n < next_id st" by simp
  with ok update_map_pk [OF updated(2)] updated(3) show ?thesis
    by (simp add: store_ok_def)
qed

lemma run_store_ok: "store_ok st \<Longrightarrow> store_ok (run st h)"
  by (induction st h rule: run.induct) (simp_all add: step_store_ok)

lemma empty_store_ok: "store_ok empty_store"
  by (simp add: store_ok_def empty_store_def)

lemma step_map_pk: "\<exists>ys. map pk (rows (step st now x)) = map pk (rows st) @ ys"
proof (cases rule: step_cases [of st now x])
  case unchanged then show ?thesis by simp
next
  case (created kw st' n)
  with create_Inr(6) [OF created(2)] show ?thesis by simp
next
  case (updated i kw st')
  with update_map_pk(1) [OF updated(2)] show ?thesis by simp
qed

lemma run_map_pk: "\<exists>ys. map pk (rows (run st h)) = map pk (rows st) @ ys"
proof (induction st h rule: run.induct)
  case (1 st) show ?case by simp
next
  case (2 st now x h)
  from step_map_pk [of st now x] obtain ys where
    a: "map pk (rows (step st now x)) = map pk (rows st) @ ys" by blast
  from 2 obtain zs where
    b: "map pk (rows (run (step st now x) h)) = map pk (rows (step st now x)) @ zs" by blast
  from a b show ?case by simp
qed

lemma read_exists_iff: "(\<exists>n. read st i = Inr n) \<longleftrightarrow> i \<in> set (map pk (rows st))"
proof -
  have "(\<exists>n. find (\<lambda>m. pk m = i) (rows st) = Some n) \<longleftrightarrow> i \<in> pk ` set (rows st)"
    using find_pk_None [of i "rows st"] by (cases "find (\<lambda>m. pk m = i) (rows st)") auto
  then show ?thesis by (simp add: read_Inr)
qed


lemma step_stays_inactive:
  assumes r: "read st i = Inr m" and a: "is_active m = Some False"
    and nr: "\<not> reactivates i x"
  shows "\<exists>m'. read (step st now x) i = Inr m' \<and> is_active m' = Some False"
proof (cases rule: step_cases [of st now x])
  case unchanged
  with r a show ?thesis by simp
next
  case (created kw st' n0)
  from create_read_old [OF created(2) r] created(3) a show ?thesis by simp
next
  case (updated j kw st')
  show ?thesis
  proof (cases "j = i")
    case False
    from update_read_other [OF updated(2) False] r a updated(3) show ?thesis by simp
  next
    case True
    from updated(2) obtain n n' where
      f: "find (\<lambda>m. pk m = j) (rows st) = Some n" and
      n': "n' = n\<lparr>title := assign (title_arg kw) (title n),
                 content := assign (content_arg kw) (content n),
                 last_updated_on := Some now,
                 is_active := assign (is_active_arg kw) (is_active n)\<rparr>" and
      nn: "is_active n' \<noteq> None"
      by (rule update_Inr)
    from f r True have "n = m" by (simp add: read_Inr)
    from updated(1) nr True have "is_active_arg kw \<noteq> Provided (Some True)"
      by (auto simp: no_args_def)
    with nn n' a \<open>n = m\<close> have "is_active n' = Some False"
      by (cases "is_active_arg kw") (auto simp: assign_def)
    moreover from update_read_same [OF updated(2)] f n' have "read st' j = Inr n'"
      by (simp add: read_Inr)
    ultimately show ?thesis using True updated(3) by simp
  qed
qed

lemma run_stays_inactive:
  assumes "read st i = Inr m" and "is_active m = Some False"
    and "list_all (\<lambda>(t, x). \<not> reactivates i x) h"
  shows "\<exists>m'. read (run st h) i = Inr m' \<and> is_active m' = Some False"
  using assms
proof (induction st h arbitrary: m rule: run.induct)
  case (1 st)
  then show ?case by simp
next
  case (2 st now x h)
  from "2.prems"(3) have nr: "\<not> reactivates i x"
    and rest: "list_all (\<lambda>(t, x). \<not> reactivates i x) h" by simp_all
  from step_stays_inactive [OF "2.prems"(1,2) nr, of now] obtain m' where
    "read (step st now x) i = Inr m'" "is_active m' = Some False" by blast
  from "2.IH" [OF this rest] show ?case by simp
qed

lemma logical_delete_read:
  assumes "read st i = Inr n"
  shows "logical_delete st now i =
     Inr (st\<lparr>rows := map (\<lambda>m. if pk m = i
         then n\<lparr>last_updated_on := Some now, is_active := Some False\<rparr> else m) (rows st)\<rparr>)"
  using assms
  by (simp add: logical_delete_def update_eq read_Inr assign_def no_args_def)

subsection \<open>The timestamp across a row's writes\<close>




subsection \<open>Logical deletion\<close>

text \<open>
  C2: the logical delete of an existing Note succeeds; the row read back is the row as
  it was, but for \<open>is_active\<close> (now false) and \<open>last_updated_on\<close> (the time of the
  write), so \<open>id\<close>, \<open>title\<close> and \<open>content\<close> are unchanged; and every later read
  returns \<open>is_active\<close> false, whatever is written in between, as long as no write sets
  \<open>is_active\<close> of this row back to true.
\<close>

theorem logical_delete_frame:
  assumes "read st i = Inr n"
  shows "\<exists>st'. logical_delete st now i = Inr st' \<and>
      read st' i = Inr (n\<lparr>last_updated_on := Some now, is_active := Some False\<rparr>) \<and>
      (\<forall>h. list_all (\<lambda>(t, x). \<not> reactivates i x) h \<longrightarrow>
         (\<exists>m. read (run st' h) i = Inr m \<and> is_active m = Some False))"
proof -
  let ?n' = "n\<lparr>last_updated_on := Some now, is_active := Some False\<rparr>"
  let ?st' = "st\<lparr>rows := map (\<lambda>m. if pk m = i then ?n' else m) (rows st)\<rparr>"
  have d: "logical_delete st now i = Inr ?st'"
    using assms by (rule logical_delete_read)
  from assms have f: "find (\<lambda>m. pk m = i) (rows st) = Some n" by (simp add: read_Inr)
  then have "pk n = i" by (rule find_pk_Some)
  then have "pk ?n' = i" by simp
  then have r: "read ?st' i = Inr ?n'"
    using f by (simp add: read_def find_pk_map)
  have a: "is_active ?n' = Some False" by simp
  have "\<forall>h. list_all (\<lambda>(t, x). \<not> reactivates i x) h \<longrightarrow>
         (\<exists>m. read (run ?st' h) i = Inr m \<and> is_active m = Some False)"
    using run_stays_inactive [OF r a] by blast
  with d r show ?thesis by blast
qed

theorem logical_delete_frame_witness:
  "read \<lparr>rows = [\<lparr>pk = 1, title = Some ''a'', content = None, last_updated_on = Some 10,
            is_active = Some True\<rparr>], next_id = 2\<rparr> 1 =
     Inr \<lparr>pk = 1, title = Some ''a'', content = None, last_updated_on = Some 10,
            is_active = Some True\<rparr> \<and>
   (\<exists>st'. logical_delete \<lparr>rows = [\<lparr>pk = 1, title = Some ''a'', content = None,
             last_updated_on = Some 10, is_active = Some True\<rparr>], next_id = 2\<rparr> 12 1 = Inr st' \<and>
      read st' 1 = Inr \<lparr>pk = 1, title = Some ''a'', content = None,
             last_updated_on = Some 12, is_active = Some False\<rparr> \<and>
      (\<exists>m. read (run st' [(13, Create no_args),
                 (14, Update 1 (no_args\<lparr>content_arg := Provided (Some ''b'')\<rparr>))]) 1 = Inr m \<and>
           is_active m = Some False))"
proof -
  let ?n = "\<lparr>pk = 1, title = Some ''a'', content = None, last_updated_on = Some (10::int),
             is_active = Some True\<rparr>"
  let ?st = "\<lparr>rows = [?n], next_id = 2\<rparr>"
  let ?h = "[(13::int, Create no_args),
             (14, Update 1 (no_args\<lparr>content_arg := Provided (Some ''b'')\<rparr>))]"
  have r: "read ?st 1 = Inr ?n" by (simp add: read_def)
  have h: "list_all (\<lambda>(t, x). \<not> reactivates 1 x) ?h" by (simp add: no_args_def)
  from logical_delete_frame [OF r, of 12] obtain st' where
    d: "logical_delete ?st 12 1 = Inr st'" and
    r': "read st' 1 = Inr (?n\<lparr>last_updated_on := Some 12, is_active := Some False\<rparr>)" and
    a: "\<forall>h. list_all (\<lambda>(t, x). \<not> reactivates 1 x) h \<longrightarrow>
         (\<exists>m. read (run st' h) 1 = Inr m \<and> is_active m = Some False)"
    by blast
  from r' have r'': "read st' 1 = Inr \<lparr>pk = 1, title = Some ''a'', content = None,
             last_updated_on = Some 12, is_active = Some False\<rparr>" by simp
  from a h have e: "\<exists>m. read (run st' ?h) 1 = Inr m \<and> is_active m = Some False"
    by blast
  from r d r'' e show ?thesis by blast
qed

subsection \<open>Primary keys\<close>

text \<open>
  C3: in every state the store reaches from the empty table, the ids of the rows,
  taken in creation order, are strictly increasing, hence pairwise distinct; a further
  create appends its row after all the others and gives it an id greater than every id
  handed out before; and the ids handed out so far stay where they are in every later
  state, so no id is used a second time.
\<close>

theorem ids_strictly_increasing:
  "sorted_wrt (<) (map pk (rows (run empty_store h))) \<and>
   distinct (map pk (rows (run empty_store h))) \<and>
   (\<forall>now kw st' n. create (run empty_store h) now kw = Inr (st', n) \<longrightarrow>
      rows st' = rows (run empty_store h) @ [n] \<and>
      (\<forall>m \<in> set (rows (run empty_store h)). pk m < pk n)) \<and>
   (\<exists>ys. map pk (rows (run (run empty_store h) h')) = map pk (rows (run empty_store h)) @ ys)"
proof -
  let ?st = "run empty_store h"
  have ok: "store_ok ?st" by (rule run_store_ok [OF empty_store_ok])
  then have s: "sorted_wrt (<) (map pk (rows ?st))" by (simp add: store_ok_def)
  then have d: "distinct (map pk (rows ?st))" by (simp add: strict_sorted_iff)
  have c: "\<forall>now kw st' n. create ?st now kw = Inr (st', n) \<longrightarrow>
      rows st' = rows ?st @ [n] \<and> (\<forall>m \<in> set (rows ?st). pk m < pk n)"
  proof (intro allI impI)
    fix now kw st' n
    assume a: "create ?st now kw = Inr (st', n)"
    from create_Inr(1,6) [OF a] ok
    show "rows st' = rows ?st @ [n] \<and> (\<forall>m \<in> set (rows ?st). pk m < pk n)"
      by (simp add: store_ok_def)
  qed
  from s d c run_map_pk [of ?st h'] show ?thesis by blast
qed

theorem ids_strictly_increasing_witness:
  "map pk (rows (run empty_store [(1, Create no_args), (2, Create no_args),
      (3, LogicalDelete 1), (4, Create no_args)])) = [1, 2, 3] \<and>
   sorted_wrt (<) [1, 2, 3 :: int] \<and>
   (\<exists>st' n. create (run empty_store [(1, Create no_args), (2, Create no_args),
      (3, LogicalDelete 1), (4, Create no_args)]) 5 no_args = Inr (st', n) \<and> pk n = 4)"
proof -
  let ?h = "[(1::int, Create no_args), (2, Create no_args), (3, LogicalDelete 1),
             (4, Create no_args)]"
  have m: "map pk (rows (run empty_store ?h)) = [1, 2, 3]"
    by (simp add: create_eq update_eq logical_delete_def assign_def no_args_def empty_store_def)
  from ids_strictly_increasing [of ?h "[]"] have "sorted_wrt (<) (map pk (rows (run empty_store ?h)))"
    by blast
  then have s: "sorted_wrt (<) [1, 2, 3 :: int]" by (simp only: m)
  have c: "\<exists>st' n. create (run empty_store ?h) 5 no_args = Inr (st', n) \<and> pk n = 4"
    by (simp add: create_eq update_eq logical_delete_def assign_def no_args_def empty_store_def)
  from m s c show ?thesis by blast
qed

subsection \<open>Creation\<close>

text \<open>
  C4: a create that is given no title and no content (the keywords left out, or passed
  as \<open>None\<close>) succeeds, and reading the new row back by its id returns it with
  \<open>title\<close> and \<open>content\<close> null. The call is otherwise well-formed: it does not pass
  \<open>None\<close> for \<open>is_active\<close>, which the column refuses.
\<close>

theorem create_without_text:
  assumes "store_ok st"
    and "title_arg kw = NOT_PROVIDED \<or> title_arg kw = Provided None"
    and "content_arg kw = NOT_PROVIDED \<or> content_arg kw = Provided None"
    and "is_active_arg kw \<noteq> Provided None"
  shows "\<exists>st' n. create st now kw = Inr (st', n) \<and> read st' (pk n) = Inr n \<and>
           title n = None \<and> content n = None"
proof -
  from assms(4) obtain b where b: "assign (is_active_arg kw) (Some True) = Some b"
    by (cases "is_active_arg kw") (auto simp: assign_def)
  then obtain st' n where c: "create st now kw = Inr (st', n)"
    by (simp add: create_eq)
  from create_Inr(3) [OF c] assms(2) have t: "title n = None" by (auto simp: assign_def)
  from create_Inr(4) [OF c] assms(3) have k: "content n = None" by (auto simp: assign_def)
  from c create_read_new [OF c assms(1)] t k show ?thesis by blast
qed

theorem create_without_text_witness:
  "store_ok empty_store \<and> title_arg no_args = NOT_PROVIDED \<and>
   content_arg no_args = NOT_PROVIDED \<and> is_active_arg no_args \<noteq> Provided None \<and>
   (\<exists>st' n. create empty_store 7 no_args = Inr (st', n) \<and> read st' (pk n) = Inr n \<and>
           title n = None \<and> content n = None)"
proof -
  have a: "title_arg no_args = NOT_PROVIDED \<or> title_arg no_args = Provided None"
    and b: "content_arg no_args = NOT_PROVIDED \<or> content_arg no_args = Provided None"
    and c: "is_active_arg no_args \<noteq> Provided None"
    by (simp_all add: no_args_def)
  from create_without_text [OF empty_store_ok a b c, of 7] empty_store_ok c
  show ?thesis by (simp add: no_args_def)
qed

text \<open>
  C5: a Note that create produces has \<open>is_active\<close> true, unless the call passes a value
  for \<open>is_active\<close>, and then it has that value; a create that passes none succeeds.
  The Note it returns is the row it appends to the table.
\<close>

theorem create_is_active_default:
  "(is_active_arg kw = NOT_PROVIDED \<longrightarrow>
      (\<exists>st' n. create st now kw = Inr (st', n) \<and> rows st' = rows st @ [n] \<and>
         is_active n = Some True)) \<and>
   (\<forall>st' n. create st now kw = Inr (st', n) \<longrightarrow>
      rows st' = rows st @ [n] \<and>
      is_active n = (case is_active_arg kw of NOT_PROVIDED \<Rightarrow> Some True | Provided v \<Rightarrow> v))"
  by (auto simp: create_eq assign_def split: option.splits supplied.splits)

theorem create_is_active_default_witness:
  "is_active_arg no_args = NOT_PROVIDED \<and>
   (\<exists>st' n. create empty_store 7 no_args = Inr (st', n) \<and>
      rows st' = rows empty_store @ [n] \<and> is_active n = Some True)"
  using create_is_active_default [of no_args empty_store 7]
  by (simp add: no_args_def)

subsection \<open>The listing\<close>

text \<open>
  C6: the listing returns the Notes of the store, all of them and each once, sorted by
  \<open>last_updated_on\<close>: ascending, or descending when the order is reversed.
\<close>

theorem list_notes_sorted:
  "sorted (map last_updated_on (list_notes False st)) \<and>
   sorted (rev (map last_updated_on (list_notes True st))) \<and>
   mset (list_notes r st) = mset (rows st)"
  by (simp add: list_notes_def rev_map)

subsection \<open>The timestamp of a write\<close>

text \<open>
  C7, as the code has it: a write that goes through \<open>save()\<close> (a create, or an update
  that fetches the instance, assigns and saves) stores the clock reading \<open>now\<close> of the
  write in \<open>last_updated_on\<close>. The row a create appends to the table is the Note it
  returns, with \<open>last_updated_on = now\<close>, and it is what a read by its id returns; the
  row an update writes reads back with \<open>last_updated_on = now\<close>; such a write to
  another row, and the creation of a new one, leave the row's stored value as it was.
  A value the caller passes for \<open>last_updated_on\<close> to such a write changes nothing:
  the table and the result are the same whatever is passed.
\<close>

theorem last_updated_on_is_write_time:
  "(\<forall>st' n. create st now kw = Inr (st', n) \<longrightarrow>
      rows st' = rows st @ [n] \<and> last_updated_on n = Some now) \<and>
   (\<forall>st' n. store_ok st \<and> create st now kw = Inr (st', n) \<longrightarrow>
      read st' (pk n) = Inr n) \<and>
   (\<forall>st'. update st now i kw = Inr st' \<longrightarrow>
      (\<exists>n'. read st' i = Inr n' \<and> last_updated_on n' = Some now)) \<and>
   (\<forall>st' j. update st now j kw = Inr st' \<and> j \<noteq> i \<longrightarrow> read st' i = read st i) \<and>
   (\<forall>st' n m. create st now kw = Inr (st', n) \<and> read st i = Inr m \<longrightarrow> read st' i = Inr m) \<and>
   create st now (kw\<lparr>last_updated_on_arg := v\<rparr>) = create st now kw \<and>
   update st now i (kw\<lparr>last_updated_on_arg := v\<rparr>) = update st now i kw"
proof (intro conjI allI impI)
  fix st' n assume c: "create st now kw = Inr (st', n)"
  from create_Inr(6) [OF c] show "rows st' = rows st @ [n]" by simp
  from c show "last_updated_on n = Some now" by (rule create_Inr(2))
next
  fix st' n assume "store_ok st \<and> create st now kw = Inr (st', n)"
  then show "read st' (pk n) = Inr n" using create_read_new by blast
next
  fix st' assume "update st now i kw = Inr st'"
  from update_read_same [OF this]
  show "\<exists>n'. read st' i = Inr n' \<and> last_updated_on n' = Some now" by auto
next
  fix st' j assume "update st now j kw = Inr st' \<and> j \<noteq> i"
  then show "read st' i = read st i" using update_read_other by blast
next
  fix st' n m assume "create st now kw = Inr (st', n) \<and> read st i = Inr m"
  then show "read st' i = Inr m" using create_read_old by blast
next
  show "create st now (kw\<lparr>last_updated_on_arg := v\<rparr>) = create st now kw"
    by (simp add: create_eq split: option.splits)
next
  show "update st now i (kw\<lparr>last_updated_on_arg := v\<rparr>) = update st now i kw"
    by (simp add: update_eq split: option.splits)
qed

theorem last_updated_on_is_write_time_witness:
  "store_ok empty_store \<and>
   (\<exists>st' n. create empty_store 7 (no_args\<lparr>last_updated_on_arg := Provided (Some 3)\<rparr>) =
       Inr (st', n) \<and> rows st' = rows empty_store @ [n] \<and> read st' (pk n) = Inr n \<and>
       last_updated_on n = Some 7) \<and>
   (\<exists>st'. update \<lparr>rows = [\<lparr>pk = 1, title = None, content = None,
               last_updated_on = Some 7, is_active = Some True\<rparr>], next_id = 2\<rparr> 9 1
             (no_args\<lparr>last_updated_on_arg := Provided (Some 3)\<rparr>) = Inr st' \<and>
      (\<exists>n'. read st' 1 = Inr n' \<and> last_updated_on n' = Some 9))"
proof -
  let ?kw = "no_args\<lparr>last_updated_on_arg := Provided (Some (3::int))\<rparr>"
  let ?st = "\<lparr>rows = [\<lparr>pk = 1, title = None, content = None,
               last_updated_on = Some (7::int), is_active = Some True\<rparr>], next_id = 2\<rparr>"
  obtain st1 n1 where c: "create empty_store 7 ?kw = Inr (st1, n1)"
    by (simp add: create_eq assign_def no_args_def)
  obtain st2 where u: "update ?st 9 1 ?kw = Inr st2"
    by (simp add: update_eq assign_def no_args_def)
  note t1 = last_updated_on_is_write_time [of empty_store 7 ?kw 1 "Provided (Some 3)"]
  from t1 c have a: "rows st1 = rows empty_store @ [n1] \<and> last_updated_on n1 = Some 7"
    by blast
  from t1 c empty_store_ok have r: "read st1 (pk n1) = Inr n1" by blast
  from last_updated_on_is_write_time [of ?st 9 ?kw 1 "Provided (Some 3)"] u
  have b: "\<exists>n'. read st2 1 = Inr n' \<and> last_updated_on n' = Some 9" by blast
  from a r b c u empty_store_ok show ?thesis by blast
qed

text \<open>
  Not every write of the class goes through \<open>save()\<close>. \<open>QuerySet.update\<close> runs no
  \<open>pre_save\<close>: on a row last written at reading 10, an update of the title at reading 20
  leaves \<open>last_updated_on\<close> at 10, which is not the time of the most recent write; and
  an update that passes \<open>last_updated_on = 3\<close> stores 3, the caller's value.
\<close>

theorem queryset_update_counterexample:
  "queryset_update \<lparr>rows = [\<lparr>pk = 1, title = None, content = None,
       last_updated_on = Some 10, is_active = Some True\<rparr>], next_id = 2\<rparr> 20 1
     (no_args\<lparr>title_arg := Provided (Some ''t'')\<rparr>) =
     Inr \<lparr>rows = [\<lparr>pk = 1, title = Some ''t'', content = None,
       last_updated_on = Some 10, is_active = Some True\<rparr>], next_id = 2\<rparr> \<and>
   queryset_update \<lparr>rows = [\<lparr>pk = 1, title = None, content = None,
       last_updated_on = Some 10, is_active = Some True\<rparr>], next_id = 2\<rparr> 20 1
     (no_args\<lparr>last_updated_on_arg := Provided (Some 3)\<rparr>) =
     Inr \<lparr>rows = [\<lparr>pk = 1, title = None, content = None,
       last_updated_on = Some 3, is_active = Some True\<rparr>], next_id = 2\<rparr> \<and>
   (10::int) < 20 \<and> (3::int) < 20"
  by (simp add: queryset_update_def not_null_ok_iff assign_def no_args_def del: not_None_eq)

subsection \<open>Rows are never removed\<close>

text \<open>
  C8: after any history of operations the ids of the store begin with the ids it had
  before, in the same order; a Note that could be read before can still be read; and the
  delete of the store is the update that writes \<open>is_active = False\<close>.
\<close>

theorem rows_never_removed:
  "(\<exists>ys. map pk (rows (run st h)) = map pk (rows st) @ ys) \<and>
   (\<forall>i n. read st i = Inr n \<longrightarrow> (\<exists>n'. read (run st h) i = Inr n')) \<and>
   step st now (LogicalDelete i) =
     step st now (Update i (no_args\<lparr>is_active_arg := Provided (Some False)\<rparr>))"
proof -
  from run_map_pk [of st h] obtain ys where
    m: "map pk (rows (run st h)) = map pk (rows st) @ ys" by blast
  have "\<forall>i n. read st i = Inr n \<longrightarrow> (\<exists>n'. read (run st h) i = Inr n')"
  proof (intro allI impI)
    fix i n assume "read st i = Inr n"
    then have "i \<in> set (map pk (rows st))" using read_exists_iff by blast
    then have "i \<in> set (map pk (rows (run st h)))" by (simp only: m set_append UnI1)
    then show "\<exists>n'. read (run st h) i = Inr n'" by (simp only: read_exists_iff)
  qed
  with m show ?thesis by (simp add: logical_delete_def)
qed

theorem rows_never_removed_witness:
  "read \<lparr>rows = [\<lparr>pk = 1, title = None, content = None, last_updated_on = Some 7,
            is_active = Some True\<rparr>], next_id = 2\<rparr> 1 =
     Inr \<lparr>pk = 1, title = None, content = None, last_updated_on = Some 7,
            is_active = Some True\<rparr> \<and>
   (\<exists>n'. read (run \<lparr>rows = [\<lparr>pk = 1, title = None, content = None,
            last_updated_on = Some 7, is_active = Some True\<rparr>], next_id = 2\<rparr>
            [(8, LogicalDelete 1), (9, Create no_args)]) 1 = Inr n')"
proof -
  let ?n = "\<lparr>pk = 1, title = None, content = None, last_updated_on = Some (7::int),
             is_active = Some True\<rparr>"
  let ?st = "\<lparr>rows = [?n], next_id = 2\<rparr>"
  have r: "read ?st 1 = Inr ?n" by (simp add: read_def)
  from rows_never_removed [of ?st "[(8, LogicalDelete 1), (9, Create no_args)]" 0 0] r
  show ?thesis by blast
qed

subsection \<open>String conversion\<close>

text \<open>
  C9: \<open>__str__\<close> returns the title as it is. For a Note whose title is null,
  \<open>str()\<close> therefore has no text to return and raises \<open>TypeError\<close>; such a Note is
  what \<open>create\<close> with no arguments produces, so the error is reachable.
\<close>

theorem str_returns_title:
  "Note_str self = title self \<and>
   (title self = None \<longrightarrow> str_builtin self = Inl TypeError) \<and>
   (\<exists>st' n. create empty_store now no_args = Inr (st', n) \<and> str_builtin n = Inl TypeError)"
  by (simp add: Note_str_def str_builtin_def create_def no_args_def field_defs Let_def)

theorem str_returns_title_witness:
  "Note_str \<lparr>pk = 1, title = None, content = Some ''x'', last_updated_on = Some 3,
             is_active = Some True\<rparr> = None \<and>
   str_builtin \<lparr>pk = 1, title = None, content = Some ''x'', last_updated_on = Some 3,
                is_active = Some True\<rparr> = Inl TypeError"
  using str_returns_title [of "\<lparr>pk = 1, title = None, content = Some ''x'',
    last_updated_on = Some 3, is_active = Some True\<rparr>" 0]
  by simp

subsection \<open>The migration against the model\<close>

text \<open>
  C10: the migration declares the model's four fields, name for name and keyword
  for keyword, in the model's order, after the primary key \<open>id\<close> that Django adds to a
  model that declares none: an auto-created \<open>BigAutoField\<close> (a 64-bit auto-increment
  column).
\<close>

theorem migration_matches_model:
  "Migration_fields =
     (''id'', BigAutoField (Field_defaults\<lparr>auto_created_kw := True, primary_key_kw := True,
                serialize_kw := False, verbose_name_kw := Some ''ID''\<rparr>)) # Note_fields \<and>
   map (\<lambda>(name, f). (name, nullable f)) Migration_fields =
     [(''id'', False), (''title'', True), (''content'', True),
      (''last_updated_on'', False), (''is_active'', False)]"
  by (simp add: Migration_fields_def Note_fields_def title_field_def content_field_def
      last_updated_on_field_def is_active_field_def Field_defaults_def)

end
